theory Spec2Isabelle
  imports Main "HOL-Library.Word" "HOL-Library.Stream"
begin

unbundle bit_operations_syntax

section \<open>Line masks and the logical-to-physical table (xum1541/iec.c, board-minimus.h)\<close>

type_synonym u8 = "8 word"
type_synonym u16 = "16 word"
type_synonym u32 = "32 word"

text \<open>avr-libc's \<^verbatim>\<open>_BV(bit)\<close> is \<^verbatim>\<open>(1 << (bit))\<close>.\<close>

definition BV :: "nat \<Rightarrow> u8" where
  "BV n = push_bit n 1"

definition IO_DATA :: u8 where "IO_DATA = BV 2"
definition IO_CLK :: u8 where "IO_CLK = BV 3"
definition IO_ATN :: u8 where "IO_ATN = BV 4"
definition IO_SRQ :: u8 where "IO_SRQ = BV 5"
definition IO_RESET :: u8 where "IO_RESET = BV 6"

definition IEC_DATA :: u8 where "IEC_DATA = 0x01"
definition IEC_CLOCK :: u8 where "IEC_CLOCK = 0x02"
definition IEC_ATN :: u8 where "IEC_ATN = 0x04"
definition IEC_RESET :: u8 where "IEC_RESET = 0x08"

datatype error = OutOfBounds

definition iec2hw_table :: "u8 list" where
  "iec2hw_table =
    [0,
     IO_DATA,
     IO_CLK,
     IO_DATA OR IO_CLK,
     IO_ATN,
     IO_DATA OR IO_ATN,
     IO_CLK OR IO_ATN,
     IO_DATA OR IO_CLK OR IO_ATN,
     IO_RESET,
     IO_DATA OR IO_RESET,
     IO_CLK OR IO_RESET,
     IO_DATA OR IO_CLK OR IO_RESET,
     IO_ATN OR IO_RESET,
     IO_DATA OR IO_ATN OR IO_RESET,
     IO_CLK OR IO_ATN OR IO_RESET,
     IO_DATA OR IO_CLK OR IO_ATN OR IO_RESET]"

text \<open>
  \<^verbatim>\<open>pgm_read_byte(iec2hw_table + iec)\<close> reads program memory at the table's address plus
  the raw argument. Inside the table that is the entry; beyond it the read leaves the
  array, which the model reports as \<open>Inl OutOfBounds\<close>.
\<close>

definition iec2hw :: "u8 \<Rightarrow> error + u8" where
  "iec2hw iec =
     (if unat iec < length iec2hw_table then Inr (iec2hw_table ! unat iec)
      else Inl OutOfBounds)"


section \<open>The line interface and its collaborators (board-minimus.h, board-minimus.c)\<close>

datatype direction = ENDPOINT_DIR_OUT | ENDPOINT_DIR_IN

text \<open>
  What the firmware does to its surroundings is recorded, most recent first:
  every write to \<^verbatim>\<open>IEC_DDR\<close> with the value written, every read of \<^verbatim>\<open>IEC_PIN\<close>
  with the value read, every busy-wait delay in microseconds, every entry of
  \<^verbatim>\<open>iec_wait_timeout_2ms(m, state)\<close>, and the calls to the USB byte channel and the
  watchdog.
\<close>

datatype event =
    Ddr u8
  | Pin u8
  | Delay nat
  | Wait2ms u8 u8
  | UsbInit u16 direction
  | UsbDone
  | UsbRecv
  | UsbSend u8
  | Wdt
  | Cli
  | Sei

text \<open>
  The registers and the collaborators' answers. \<open>pins\<close> holds the values that successive
  reads of the volatile input register \<^verbatim>\<open>IEC_PIN\<close> will return (a pin bit is 0 while
  its line is pulled), \<open>timer\<close> the successive answers of \<^verbatim>\<open>TimerWorker()\<close> (False is
  an abort request), \<open>usb_rx\<close> the successive (status, byte) answers of
  \<^verbatim>\<open>usbRecvByte\<close>, \<open>usb_tx\<close> the successive statuses of \<^verbatim>\<open>usbSendByte\<close>. The
  \<open>eoi\<close> latch is only ever assigned 0 or 1 and tested for truth.
\<close>

record hw =
  ddr :: u8
  pins :: "u8 stream"
  eoi :: bool
  timer :: "bool stream"
  usb_rx :: "(u8 \<times> u8) stream"
  usb_tx :: "u8 stream"
  log :: "event list"

definition read_IEC_PIN :: "hw \<Rightarrow> u8 \<times> hw" where
  "read_IEC_PIN s =
     (shd (pins s), s\<lparr>pins := stl (pins s), log := Pin (shd (pins s)) # log s\<rparr>)"

definition write_IEC_DDR :: "u8 \<Rightarrow> hw \<Rightarrow> hw" where
  "write_IEC_DDR v s = s\<lparr>ddr := v, log := Ddr v # log s\<rparr>"

definition iec_get :: "u8 \<Rightarrow> hw \<Rightarrow> bool \<times> hw" where
  "iec_get line s = (let (p, s1) = read_IEC_PIN s in (p AND line = 0, s1))"

definition iec_set :: "u8 \<Rightarrow> hw \<Rightarrow> hw" where
  "iec_set line s = write_IEC_DDR (ddr s OR line) s"

definition iec_release :: "u8 \<Rightarrow> hw \<Rightarrow> hw" where
  "iec_release line s = write_IEC_DDR (ddr s AND NOT line) s"

definition iec_set_release :: "u8 \<Rightarrow> u8 \<Rightarrow> hw \<Rightarrow> hw" where
  "iec_set_release s r h = iec_release r (iec_set s h)"

definition iec_poll_pins :: "hw \<Rightarrow> u8 \<times> hw" where
  "iec_poll_pins s =
     (let (p, s1) = read_IEC_PIN s
      in (p AND (IO_DATA OR IO_CLK OR IO_ATN OR IO_SRQ OR IO_RESET), s1))"

text \<open>
  Modelled from the spec: \<^verbatim>\<open>iec_poll()\<close> is declared in xum1541.h, which is not among
  the sources. The spec's line interface has \<^verbatim>\<open>sample() -> bitmask\<close>; the model takes it
  to be the board's \<^verbatim>\<open>iec_poll_pins()\<close>.
\<close>

definition iec_poll :: "hw \<Rightarrow> u8 \<times> hw" where
  "iec_poll s = iec_poll_pins s"

definition DELAY_US :: "nat \<Rightarrow> hw \<Rightarrow> hw" where
  "DELAY_US n s = s\<lparr>log := Delay n # log s\<rparr>"

definition TimerWorker :: "hw \<Rightarrow> bool \<times> hw" where
  "TimerWorker s = (shd (timer s), s\<lparr>timer := stl (timer s)\<rparr>)"

definition usbInitIo :: "u16 \<Rightarrow> direction \<Rightarrow> hw \<Rightarrow> hw" where
  "usbInitIo len dir s = s\<lparr>log := UsbInit len dir # log s\<rparr>"

definition usbIoDone :: "hw \<Rightarrow> hw" where
  "usbIoDone s = s\<lparr>log := UsbDone # log s\<rparr>"

definition usbRecvByte :: "hw \<Rightarrow> u8 \<times> u8 \<times> hw" where
  "usbRecvByte s =
     (let (st, d) = shd (usb_rx s)
      in (st, d, s\<lparr>usb_rx := stl (usb_rx s), log := UsbRecv # log s\<rparr>))"

definition usbSendByte :: "u8 \<Rightarrow> hw \<Rightarrow> u8 \<times> hw" where
  "usbSendByte b s = (shd (usb_tx s), s\<lparr>usb_tx := stl (usb_tx s), log := UsbSend b # log s\<rparr>)"

definition wdt_reset :: "hw \<Rightarrow> hw" where
  "wdt_reset s = s\<lparr>log := Wdt # log s\<rparr>"

definition cli :: "hw \<Rightarrow> hw" where
  "cli s = s\<lparr>log := Cli # log s\<rparr>"

definition sei :: "hw \<Rightarrow> hw" where
  "sei s = s\<lparr>log := Sei # log s\<rparr>"

section \<open>Standard serial protocol engine (xum1541/iec.c)\<close>

definition xu1541_setrelease :: "u8 \<Rightarrow> u8 \<Rightarrow> hw \<Rightarrow> error + hw" where
  "xu1541_setrelease set_lines release_lines s =
     (case iec2hw set_lines of
        Inl e \<Rightarrow> Inl e
      | Inr hs \<Rightarrow>
          (case iec2hw release_lines of
             Inl e \<Rightarrow> Inl e
           | Inr hr \<Rightarrow> Inr (iec_set_release hs hr s)))"

definition check_if_bus_free :: "hw \<Rightarrow> u8 \<times> hw" where
  "check_if_bus_free s =
     (let s1 = DELAY_US 50 (iec_release (IO_ATN OR IO_CLK OR IO_DATA OR IO_RESET) s);
          (d1, s2) = iec_get IO_DATA s1
      in if d1 then (0, s2)
         else
           let (d2, s3) = iec_get IO_DATA (DELAY_US 50 s2)
           in if d2 then (0, s3)
              else
                let (d3, s4) = iec_get IO_DATA (DELAY_US 100 (iec_set IO_ATN s3))
                in if \<not> d3 then (0, iec_release IO_ATN s4)
                   else
                     let (d4, s5) = iec_get IO_DATA (DELAY_US 100 (iec_release IO_ATN s4))
                     in (if \<not> d4 then 1 else 0, s5))"

text \<open>
  The polling loop of \<^verbatim>\<open>iec_wait_timeout_2ms\<close>. \<^verbatim>\<open>count-- != 0\<close> is only evaluated
  when the line test holds; it compares the old count and the loop ends when that is 0.
\<close>

function iec_wait_timeout_2ms_loop :: "u8 \<Rightarrow> u8 \<Rightarrow> nat \<Rightarrow> hw \<Rightarrow> hw" where
  "iec_wait_timeout_2ms_loop m state count s =
     (let (p, s1) = iec_poll s
      in if p AND m = state \<and> count \<noteq> 0
         then iec_wait_timeout_2ms_loop m state (count - 1) (DELAY_US 10 s1)
         else s1)"
  by pat_completeness auto
termination
  by (relation "measure (\<lambda>(m, state, count, s). count)") auto

declare iec_wait_timeout_2ms_loop.simps [simp del]

definition iec_wait_timeout_2ms :: "u8 \<Rightarrow> u8 \<Rightarrow> hw \<Rightarrow> bool \<times> hw" where
  "iec_wait_timeout_2ms m state s =
     (let s1 = iec_wait_timeout_2ms_loop m state 200 (s\<lparr>log := Wait2ms m state # log s\<rparr>);
          (p, s2) = iec_poll s1
      in (p AND m \<noteq> state, s2))"

function iec_wait_clk_loop :: "nat \<Rightarrow> hw \<Rightarrow> hw" where
  "iec_wait_clk_loop count s =
     (let (c, s1) = iec_get IO_CLK s
      in if \<not> c \<and> count \<noteq> 0
         then iec_wait_clk_loop (count - 1) (DELAY_US 2 s1)
         else s1)"
  by pat_completeness auto
termination
  by (relation "measure (\<lambda>(count, s). count)") auto

declare iec_wait_clk_loop.simps [simp del]

definition iec_wait_clk :: "hw \<Rightarrow> hw" where
  "iec_wait_clk s = iec_wait_clk_loop 200 s"

text \<open>The \<^verbatim>\<open>for (i = 0; i < 8; i++)\<close> loop of \<^verbatim>\<open>send_byte\<close>.\<close>

function send_byte_loop :: "nat \<Rightarrow> u8 \<Rightarrow> hw \<Rightarrow> hw" where
  "send_byte_loop i b s =
     (if i < 8 then
        let s1 = DELAY_US 75 s;
            s2 = (if b AND 1 = 0 then iec_set IO_DATA s1 else s1);
            s3 = DELAY_US 20 (iec_release IO_CLK s2);
            s4 = iec_set_release IO_CLK IO_DATA s3
        in send_byte_loop (i + 1) (drop_bit 1 b) s4
      else s)"
  by pat_completeness auto
termination
  by (relation "measure (\<lambda>(i, b, s). 8 - i)") auto

declare send_byte_loop.simps [simp del]

definition send_byte :: "u8 \<Rightarrow> hw \<Rightarrow> bool \<times> hw" where
  "send_byte b s = iec_wait_timeout_2ms IO_DATA IO_DATA (send_byte_loop 0 b s)"

text \<open>
  \<^verbatim>\<open>wait_for_listener\<close> waits forever: the loop has no bound. The model polls at most
  \<open>fuel\<close> times; the result \<open>None\<close> says that the wait had not ended by then, and gives
  the state reached. A call that never returns has \<open>None\<close> for every \<open>fuel\<close>.
\<close>

function wait_for_listener_loop :: "nat \<Rightarrow> hw \<Rightarrow> bool option \<times> hw" where
  "wait_for_listener_loop fuel s =
     (if fuel = 0 then (None, s)
      else
        let (d, s1) = iec_get IO_DATA s
        in if d then
             (let (tw, s2) = TimerWorker s1
              in if \<not> tw then (Some False, s2) else wait_for_listener_loop (fuel - 1) s2)
           else (Some True, s1))"
  by pat_completeness auto
termination
  by (relation "measure (\<lambda>(fuel, s). fuel)") auto

declare wait_for_listener_loop.simps [simp del]

definition wait_for_listener :: "nat \<Rightarrow> hw \<Rightarrow> bool option \<times> hw" where
  "wait_for_listener fuel s = wait_for_listener_loop fuel (iec_release IO_CLK s)"

subsection \<open>cbm_raw_write\<close>

text \<open>The \<^verbatim>\<open>if (len == 1 && !atn)\<close> block: the extended EOI delay.\<close>

definition cbm_raw_write_eoi :: "u16 \<Rightarrow> u8 \<Rightarrow> hw \<Rightarrow> hw" where
  "cbm_raw_write_eoi len atn s =
     (if len = 1 \<and> atn = 0
      then snd (iec_wait_timeout_2ms IO_DATA 0 (snd (iec_wait_timeout_2ms IO_DATA IO_DATA s)))
      else s)"

text \<open>
  One pass through the body of \<^verbatim>\<open>while (len && rv)\<close>. A \<^verbatim>\<open>break\<close> leaves the loop
  at once (without \<^verbatim>\<open>wdt_reset\<close>); every other path ends in \<^verbatim>\<open>wdt_reset\<close> and goes
  back to the loop test. The result is whether the body broke out, with the new
  \<^verbatim>\<open>len\<close> and \<^verbatim>\<open>rv\<close>, or \<open>None\<close> when the pass is still in \<^verbatim>\<open>wait_for_listener\<close>.
\<close>

definition cbm_raw_write_body ::
  "nat \<Rightarrow> u16 \<Rightarrow> u16 \<Rightarrow> u8 \<Rightarrow> hw \<Rightarrow> (bool \<times> u16 \<times> u16) option \<times> hw" where
  "cbm_raw_write_body fuel len rv atn s =
     (let (d, s1) = iec_get IO_DATA (DELAY_US 50 s)
      in if d then
           (let (w, s2) = wait_for_listener fuel s1
            in case w of
                 None \<Rightarrow> (None, s2)
               | Some listening \<Rightarrow>
                   if \<not> listening then (Some (True, len, 0), s2)
                   else
                     let s3 = cbm_raw_write_eoi len atn s2;
                         (st, data, s4) = usbRecvByte (iec_set IO_CLK s3)
                     in if st \<noteq> 0 then (Some (True, len, 0), s4)
                        else
                          let (ack, s5) = send_byte data s4
                          in if ack
                             then (Some (False, len - 1, rv), wdt_reset (DELAY_US 100 s5))
                             else (Some (False, len, 0), wdt_reset s5))
         else (Some (False, len, 0), wdt_reset s1))"

lemma cbm_raw_write_body_decreases:
  "cbm_raw_write_body fuel len rv atn s = (Some (False, len1, rv1), s1) \<Longrightarrow>
   len \<noteq> 0 \<Longrightarrow> rv \<noteq> 0 \<Longrightarrow>
   unat len1 + (if rv1 = 0 then 0 else 1) < unat len + (if rv = 0 then 0 else 1)"
  by (auto simp: cbm_raw_write_body_def Let_def unat_minus_one unat_gt_0
           split: prod.splits option.splits if_splits)

function cbm_raw_write_loop ::
  "nat \<Rightarrow> u16 \<Rightarrow> u16 \<Rightarrow> u8 \<Rightarrow> hw \<Rightarrow> (u16 \<times> u16) option \<times> hw" where
  "cbm_raw_write_loop fuel len rv atn s =
     (if len \<noteq> 0 \<and> rv \<noteq> 0 then
        (let (b, s1) = cbm_raw_write_body fuel len rv atn s
         in case b of
              None \<Rightarrow> (None, s1)
            | Some (broke, len1, rv1) \<Rightarrow>
                if broke then (Some (len1, rv1), s1)
                else cbm_raw_write_loop fuel len1 rv1 atn s1)
      else (Some (len, rv), s))"
  by pat_completeness auto
termination
proof (relation "measure (\<lambda>(fuel, len, rv, atn, s). unat len + (if rv = 0 then 0 else 1))",
       goal_cases)
  case 1
  show ?case by simp
next
  case (2 fuel len rv atn s x b s1 y broke z len1 rv1)
  then have "cbm_raw_write_body fuel len rv atn s = (Some (False, len1, rv1), s1)"
    by simp
  from cbm_raw_write_body_decreases [OF this] 2 show ?case by simp
qed

declare cbm_raw_write_loop.simps [simp del]

text \<open>
  The unbounded wait for the device to grab CLK after a TALK command, with \<open>fuel\<close> as
  in \<open>wait_for_listener_loop\<close>.
\<close>

function cbm_raw_write_talk_wait :: "nat \<Rightarrow> u16 \<Rightarrow> hw \<Rightarrow> u16 option \<times> hw" where
  "cbm_raw_write_talk_wait fuel rv s =
     (if fuel = 0 then (None, s)
      else
        let (c, s1) = iec_get IO_CLK s
        in if \<not> c then
             (let (tw, s2) = TimerWorker s1
              in if \<not> tw then (Some 0, s2) else cbm_raw_write_talk_wait (fuel - 1) rv s2)
           else (Some rv, s1))"
  by pat_completeness auto
termination
  by (relation "measure (\<lambda>(fuel, rv, s). fuel)") auto

declare cbm_raw_write_talk_wait.simps [simp del]

text \<open>From \<^verbatim>\<open>usbIoDone()\<close> after the loop to the return.\<close>

definition cbm_raw_write_end :: "nat \<Rightarrow> u8 \<Rightarrow> u16 \<Rightarrow> hw \<Rightarrow> u16 option \<times> hw" where
  "cbm_raw_write_end fuel talk rv s =
     (let s1 = usbIoDone s
      in if rv \<noteq> 0 then
           (if talk \<noteq> 0 then
              (let (r, s2) = cbm_raw_write_talk_wait fuel rv
                               (iec_release (IO_CLK OR IO_ATN) (iec_set IO_DATA s1))
               in case r of
                    None \<Rightarrow> (None, s2)
                  | Some rv1 \<Rightarrow> (Some rv1, DELAY_US 100 s2))
            else (Some rv, DELAY_US 100 (iec_release IO_ATN s1)))
         else (Some rv, iec_release (IO_CLK OR IO_ATN) s1))"

text \<open>The call from the head of the loop on: the loop, then the end.\<close>

definition cbm_raw_write_from ::
  "nat \<Rightarrow> u8 \<Rightarrow> u16 \<Rightarrow> u16 \<Rightarrow> u8 \<Rightarrow> hw \<Rightarrow> u16 option \<times> hw" where
  "cbm_raw_write_from fuel talk len rv atn s =
     (let (l, s1) = cbm_raw_write_loop fuel len rv atn s
      in case l of
           None \<Rightarrow> (None, s1)
         | Some (len1, rv1) \<Rightarrow> cbm_raw_write_end fuel talk rv1 s1)"

text \<open>
  The flag masks \<^verbatim>\<open>XUM_WRITE_ATN\<close> and \<^verbatim>\<open>XUM_WRITE_TALK\<close> are declared in a header that
  is not among the sources; they are parameters. The result is the value returned, or
  \<open>None\<close> for a call that is still in one of its unbounded waits.
\<close>

definition cbm_raw_write ::
  "nat \<Rightarrow> u8 \<Rightarrow> u8 \<Rightarrow> u16 \<Rightarrow> u8 \<Rightarrow> hw \<Rightarrow> u16 option \<times> hw" where
  "cbm_raw_write fuel XUM_WRITE_ATN XUM_WRITE_TALK len flags s =
     (let rv = len;
          atn = flags AND XUM_WRITE_ATN;
          talk = flags AND XUM_WRITE_TALK;
          s1 = usbInitIo len ENDPOINT_DIR_OUT (s\<lparr>eoi := False\<rparr>);
          s2 = iec_set (IO_CLK OR (if atn \<noteq> 0 then IO_ATN else 0)) (iec_release IO_DATA s1);
          (found, s3) = iec_wait_timeout_2ms IO_DATA IO_DATA s2
      in if \<not> found then (Some 0, usbIoDone (iec_release (IO_CLK OR IO_ATN) s3))
         else cbm_raw_write_from fuel talk len rv atn s3)"

subsection \<open>cbm_raw_read\<close>

text \<open>
  The wait for the talker to release CLK at the head of each byte. The result is False
  where the source takes the \<^verbatim>\<open>rd to\<close> exit (50000 polls of 20 us, or an abort).
\<close>

function cbm_raw_read_wait_clk :: "nat \<Rightarrow> hw \<Rightarrow> bool \<times> hw" where
  "cbm_raw_read_wait_clk to s =
     (let (c, s1) = iec_get IO_CLK s
      in if c then
           (if to \<ge> 50000 then (False, s1)
            else
              let (tw, s2) = TimerWorker s1
              in if \<not> tw then (False, s2)
                 else cbm_raw_read_wait_clk (to + 1) (DELAY_US 20 s2))
         else (True, s1))"
  by pat_completeness auto
termination
  by (relation "measure (\<lambda>(to, s). 50000 - to)") auto

declare cbm_raw_read_wait_clk.simps [simp del]

text \<open>The \<^verbatim>\<open>for (bit = b = 0; bit < 8 && ok; bit++)\<close> loop.\<close>

function cbm_raw_read_bits :: "nat \<Rightarrow> u8 \<Rightarrow> bool \<Rightarrow> hw \<Rightarrow> bool \<times> u8 \<times> hw" where
  "cbm_raw_read_bits bit_no b ok s =
     (if bit_no < 8 \<and> ok then
        let (ok1, s1) = iec_wait_timeout_2ms IO_CLK 0 s
        in if ok1 then
             let b1 = drop_bit 1 b;
                 (d, s2) = iec_get IO_DATA s1;
                 b2 = (if \<not> d then b1 OR 0x80 else b1);
                 (ok2, s3) = iec_wait_timeout_2ms IO_CLK IO_CLK s2
             in cbm_raw_read_bits (bit_no + 1) b2 ok2 s3
           else cbm_raw_read_bits (bit_no + 1) b ok1 s1
      else (ok, b, s))"
  by pat_completeness auto
termination
  by (relation "measure (\<lambda>(bit_no, b, ok, s). 8 - bit_no)") auto

declare cbm_raw_read_bits.simps [simp del]

text \<open>The wait for CLK before the bit loop, and the bit loop.\<close>

definition cbm_raw_read_byte :: "hw \<Rightarrow> bool \<times> u8 \<times> hw" where
  "cbm_raw_read_byte s =
     (let (ok, s1) = iec_wait_timeout_2ms IO_CLK IO_CLK s
      in cbm_raw_read_bits 0 0 ok s1)"

text \<open>
  Release DATA, give the talker the EOI detect window to pull CLK, and if it has not,
  latch \<^verbatim>\<open>eoi\<close> and acknowledge with a 70 us pulse on DATA.
\<close>

definition cbm_raw_read_eoi :: "hw \<Rightarrow> hw" where
  "cbm_raw_read_eoi s =
     (let s1 = iec_wait_clk (iec_release IO_DATA s);
          (c, s2) = iec_get IO_CLK s1
      in if \<not> c
         then iec_release IO_DATA (DELAY_US 70 (iec_set IO_DATA (s2\<lparr>eoi := True\<rparr>)))
         else s2)"

text \<open>After the \<^verbatim>\<open>do ... while\<close> loop: a failed byte zeroes the count.\<close>

definition cbm_raw_read_end :: "u16 \<Rightarrow> bool \<Rightarrow> hw \<Rightarrow> u16 \<times> hw" where
  "cbm_raw_read_end count ok s = (if \<not> ok then 0 else count, usbIoDone s)"

text \<open>
  The \<^verbatim>\<open>do ... while (count != len && ok && !eoi)\<close> loop from its head, with everything that
  follows it: the two \<^verbatim>\<open>return 0\<close> exits inside the body, the \<^verbatim>\<open>break\<close>, and the
  normal end of the loop. \<^verbatim>\<open>count\<close> is a 16-bit counter and wraps.
\<close>

lemma u16_pred_less: "(x::u16) \<noteq> 0 \<Longrightarrow> unat (x - 1) < unat x"
  by (simp add: unat_minus_one unat_gt_0)

lemma u16_countdown:
  fixes len count :: u16
  assumes "count + 1 \<noteq> len"
  shows "unat (len - (count + 1) - 1) < unat (len - count - 1)"
proof -
  have e: "len - count - 1 = len - (count + 1)" by simp
  from assms have "len - (count + 1) \<noteq> 0" by (simp only: right_minus_eq)
  then have "len - count - 1 \<noteq> 0" unfolding e .
  then have "unat (len - count - 1 - 1) < unat (len - count - 1)" by (rule u16_pred_less)
  then show ?thesis unfolding e .
qed

function cbm_raw_read_loop :: "u16 \<Rightarrow> u16 \<Rightarrow> hw \<Rightarrow> u16 \<times> hw" where
  "cbm_raw_read_loop len count s =
     (let (released, s1) = cbm_raw_read_wait_clk 0 s
      in if \<not> released then (0, usbIoDone s1)
         else if eoi s1 then (0, usbIoDone s1)
         else
           let s4 = cbm_raw_read_eoi s1;
               (ok, b, s5) = cbm_raw_read_byte (cli s4);
               s6 = sei s5
           in if ok then
                let (st, s7) = usbSendByte b (iec_set IO_DATA s6)
                in if st \<noteq> 0 then cbm_raw_read_end count ok s7
                   else
                     let count1 = count + 1;
                         s8 = wdt_reset (DELAY_US 50 s7)
                     in if count1 \<noteq> len \<and> ok \<and> \<not> eoi s8
                        then cbm_raw_read_loop len count1 s8
                        else cbm_raw_read_end count1 ok s8
              else cbm_raw_read_end count ok (wdt_reset s6))"
  by pat_completeness auto
termination
  by (relation "measure (\<lambda>(len, count, s). unat (len - count - 1))")
     (auto dest: u16_countdown)

declare cbm_raw_read_loop.simps [simp del]

definition cbm_raw_read :: "u16 \<Rightarrow> hw \<Rightarrow> u16 \<times> hw" where
  "cbm_raw_read len s = cbm_raw_read_loop len 0 (usbInitIo len ENDPOINT_DIR_IN s)"


section \<open>Burst (SRQ) backend (opencbm/libtrans/srq.c)\<close>

text \<open>
  The enumeration \<^verbatim>\<open>cbm_device_type_e\<close> is declared in opencbm.h, which is not among the
  sources. The model has the five enumerators \<^verbatim>\<open>upload\<close> names and one constructor for
  every other value, which the \<^verbatim>\<open>switch\<close> sends to \<^verbatim>\<open>default\<close>.
\<close>

datatype cbm_device_type_e =
    cbm_dt_unknown
  | cbm_dt_cbm1541
  | cbm_dt_cbm1570
  | cbm_dt_cbm1571
  | cbm_dt_cbm1581
  | cbm_dt_other int

text \<open>\<^verbatim>\<open>assert\<close> aborts the process when its condition fails.\<close>

datatype 'a outcome = Returned 'a | AssertionFailed

text \<open>
  The host side as the backend sees it: what \<^verbatim>\<open>cbm_identify\<close> answers (return value
  and drive type), what \<^verbatim>\<open>cbm_upload\<close> returns for a drive, address, image and length,
  what \<^verbatim>\<open>cbm_srq_burst_read_track\<close> returns, the host memory that buffer pointers
  address, and the calls made so far, oldest first: uploads (drive, address, image,
  length), bytes handed to \<^verbatim>\<open>cbm_srq_burst_write\<close>, and track reads (buffer, length).
\<close>

record host =
  identify_reply :: "int \<times> cbm_device_type_e"
  upload_reply :: "u8 \<Rightarrow> u16 \<Rightarrow> u8 list \<Rightarrow> u32 \<Rightarrow> int"
  read_track_reply :: "nat \<Rightarrow> u32 \<Rightarrow> int"
  mem :: "nat \<Rightarrow> u8"
  uploads :: "(u8 \<times> u16 \<times> u8 list \<times> u32) list"
  burst_writes :: "u8 list"
  track_reads :: "(nat \<times> u32) list"

definition cbm_identify :: "int \<Rightarrow> u8 \<Rightarrow> host \<Rightarrow> int \<times> cbm_device_type_e \<times> host" where
  "cbm_identify fd drive h = (fst (identify_reply h), snd (identify_reply h), h)"

definition cbm_upload :: "int \<Rightarrow> u8 \<Rightarrow> u16 \<Rightarrow> u8 list \<Rightarrow> u32 \<Rightarrow> host \<Rightarrow> int \<times> host" where
  "cbm_upload fd drive addr prog len h =
     (upload_reply h drive addr prog len,
      h\<lparr>uploads := uploads h @ [(drive, addr, prog, len)]\<rparr>)"

definition cbm_srq_burst_write :: "int \<Rightarrow> u8 \<Rightarrow> host \<Rightarrow> host" where
  "cbm_srq_burst_write fd c h = h\<lparr>burst_writes := burst_writes h @ [c]\<rparr>"

definition cbm_srq_burst_read_track :: "int \<Rightarrow> nat \<Rightarrow> u32 \<Rightarrow> host \<Rightarrow> int \<times> host" where
  "cbm_srq_burst_read_track fd p len h =
     (read_track_reply h p len, h\<lparr>track_reads := track_reads h @ [(p, len)]\<rparr>)"

text \<open>
  The part of \<^verbatim>\<open>upload\<close> after the \<^verbatim>\<open>switch\<close>. \<^verbatim>\<open>sizeof\<close> the image is stored in an
  \<^verbatim>\<open>unsigned int\<close>, and so is the \<^verbatim>\<open>int\<close> that \<^verbatim>\<open>cbm_upload\<close> returns.
\<close>

definition upload_image :: "int \<Rightarrow> u8 \<Rightarrow> u8 list \<Rightarrow> host \<Rightarrow> int outcome \<times> host" where
  "upload_image fd drive srq_drive_prog h =
     (let srq_drive_prog_length = (word_of_nat (length srq_drive_prog) :: u32)
      in if \<not> srq_drive_prog_length < 0x100 then (AssertionFailed, h)
         else
           let (r, h1) = cbm_upload fd drive 0x700 srq_drive_prog srq_drive_prog_length h;
               bytesWritten = (word_of_int r :: u32)
           in if bytesWritten \<noteq> srq_drive_prog_length then (Returned 1, h1)
              else (Returned 0, h1))"

text \<open>
  The image \<^verbatim>\<open>srq1571_drive_prog\<close> comes from srq1571.inc, which is not among the
  sources; it is the first parameter.
\<close>

definition upload :: "u8 list \<Rightarrow> int \<Rightarrow> u8 \<Rightarrow> host \<Rightarrow> int outcome \<times> host" where
  "upload srq1571_drive_prog fd drive h =
     (let (rc, driveType, h1) = cbm_identify fd drive h
      in if rc \<noteq> 0 then (Returned 1, h1)
         else
           (case driveType of
              cbm_dt_cbm1541 \<Rightarrow> (Returned 1, h1)
            | cbm_dt_cbm1581 \<Rightarrow> (Returned 1, h1)
            | cbm_dt_cbm1570 \<Rightarrow> upload_image fd drive srq1571_drive_prog h1
            | cbm_dt_cbm1571 \<Rightarrow> upload_image fd drive srq1571_drive_prog h1
            | cbm_dt_unknown \<Rightarrow> (Returned 1, h1)
            | cbm_dt_other v \<Rightarrow> (Returned 1, h1)))"

text \<open>
  \<^verbatim>\<open>readblock\<close> as compiled without \<^verbatim>\<open>USE_HANDSHAKED_READ_BLOCK\<close>, which nothing in
  the sources defines. \<^verbatim>\<open>0x100 - length\<close> is \<^verbatim>\<open>unsigned int\<close> arithmetic.
\<close>

definition readblock :: "int \<Rightarrow> nat \<Rightarrow> u32 \<Rightarrow> host \<Rightarrow> int \<times> host" where
  "readblock fd p len h = cbm_srq_burst_read_track fd p (0x100 - len) h"

definition write1byte :: "int \<Rightarrow> u8 \<Rightarrow> host \<Rightarrow> int \<times> host" where
  "write1byte fd c1 h = (0, cbm_srq_burst_write fd c1 h)"

function writeblock_loop :: "int \<Rightarrow> nat \<Rightarrow> u32 \<Rightarrow> host \<Rightarrow> host" where
  "writeblock_loop fd p len h =
     (if len < 0x100
      then writeblock_loop fd (p + 1) (len + 1) (cbm_srq_burst_write fd (mem h p) h)
      else h)"
  by pat_completeness auto
termination
  by (relation "measure (\<lambda>(fd, p, len, h). 256 - unat len)")
     (auto simp: word_less_nat_alt unat_word_ariths)

declare writeblock_loop.simps [simp del]

definition writeblock :: "int \<Rightarrow> nat \<Rightarrow> u32 \<Rightarrow> host \<Rightarrow> int \<times> host" where
  "writeblock fd p len h = (0, writeblock_loop fd p len h)"


section \<open>Observations on the event log\<close>

text \<open>
  A polling loop leaves pin reads and delays in the log. \<open>polled d n ps\<close> is what \<open>n\<close>
  rounds of reading the next sample of \<open>ps\<close> and then waiting \<open>d\<close> microseconds leave,
  most recent first.
\<close>

fun polled :: "nat \<Rightarrow> nat \<Rightarrow> u8 stream \<Rightarrow> event list" where
  "polled d 0 ps = []"
| "polled d (Suc n) ps = polled d n (stl ps) @ [Delay d, Pin (shd ps)]"

fun is_poll :: "event \<Rightarrow> bool" where
  "is_poll (Pin v) = True"
| "is_poll (Delay n) = True"
| "is_poll e = False"

text \<open>
  Looking back from a point of the log past the pin reads and delays: when the event
  before them is the entry of \<^verbatim>\<open>iec_wait_timeout_2ms(m, state)\<close>, the log before that
  entry.
\<close>

fun wait_before :: "u8 \<Rightarrow> u8 \<Rightarrow> event list \<Rightarrow> event list option" where
  "wait_before m state [] = None"
| "wait_before m state (e # l) =
     (if is_poll e then wait_before m state l
      else if e = Wait2ms m state then Some l
      else None)"

fun clock_pulled :: "event \<Rightarrow> bool" where
  "clock_pulled (Ddr d) = (d AND IO_CLK \<noteq> 0)"
| "clock_pulled e = False"

text \<open>
  The extended EOI delay sequence, as it shows in the log: a 2 ms wait for DATA to be
  pulled, then a 2 ms wait for DATA to be released, then a write to \<^verbatim>\<open>IEC_DDR\<close> that
  pulls CLOCK, with nothing but pin reads and delays between them.
  \<open>eoi_delay_ends e l\<close> says that the event \<open>e\<close>, coming after the log \<open>l\<close>, completes
  such a sequence; \<open>eoi_delays\<close> counts the sequences completed.
\<close>

definition eoi_delay_ends :: "event \<Rightarrow> event list \<Rightarrow> bool" where
  "eoi_delay_ends e l =
     (clock_pulled e \<and>
      (case wait_before IO_DATA 0 l of
         None \<Rightarrow> False
       | Some l1 \<Rightarrow> wait_before IO_DATA IO_DATA l1 \<noteq> None))"

fun eoi_delays_in :: "event list \<Rightarrow> nat" where
  "eoi_delays_in [] = 0"
| "eoi_delays_in (e # l) = (if eoi_delay_ends e l then 1 else 0) + eoi_delays_in l"

definition eoi_delays :: "hw \<Rightarrow> nat" where
  "eoi_delays s = eoi_delays_in (log s)"

text \<open>
  No extended EOI delay is under way: looking back past the pin reads and delays, the
  last event is not the entry of the wait for DATA to be released.
\<close>

definition settled :: "hw \<Rightarrow> bool" where
  "settled s = (wait_before IO_DATA 0 (log s) = None)"

text \<open>The number of bytes asked from the host (\<^verbatim>\<open>usbRecvByte\<close> calls).\<close>

definition fetched :: "hw \<Rightarrow> nat" where
  "fetched s = length (filter (\<lambda>e. e = UsbRecv) (log s))"

text \<open>The bytes handed to \<^verbatim>\<open>usbSendByte\<close>, oldest first.\<close>

fun sent_byte :: "event \<Rightarrow> u8 list" where
  "sent_byte (UsbSend b) = [b]"
| "sent_byte e = []"

definition delivered :: "hw \<Rightarrow> u8 list" where
  "delivered s = rev (concat (map sent_byte (log s)))"

text \<open>The microseconds spent in \<^verbatim>\<open>DELAY_US\<close>.\<close>

fun delay_us :: "event \<Rightarrow> nat" where
  "delay_us (Delay n) = n"
| "delay_us e = 0"

definition busy_wait_us :: "hw \<Rightarrow> nat" where
  "busy_wait_us s = sum_list (map delay_us (log s))"

section \<open>Concrete surroundings for the examples\<close>

text \<open>
  A controller at rest on a bus whose next pin samples are \<open>ps\<close> and which reads all
  lines released (every pin bit 1) from then on; the host never aborts, and the USB
  channel delivers the bytes \<open>rx\<close> and then zeros, every transfer succeeding.
\<close>

definition bench :: "u8 list \<Rightarrow> u8 list \<Rightarrow> hw" where
  "bench ps rx =
     \<lparr>ddr = 0, pins = ps @- sconst 0xFF, eoi = False, timer = sconst True,
      usb_rx = map (\<lambda>b. (0, b)) rx @- sconst (0, 0), usb_tx = sconst 0, log = []\<rparr>"

text \<open>
  A host with a 1571 attached whose upload primitive reports \<open>n\<close> bytes written, and
  whose memory holds at every address the low byte of that address.
\<close>

definition host_1571 :: "int \<Rightarrow> host" where
  "host_1571 n =
     \<lparr>identify_reply = (0, cbm_dt_cbm1571), upload_reply = (\<lambda>drive addr prog len. n),
      read_track_reply = (\<lambda>p len. 0), mem = (\<lambda>a. word_of_nat a),
      uploads = [], burst_writes = [], track_reads = []\<rparr>"

text \<open>
  The pin samples seen by a one-byte write without ATN to a listener that answers at
  once: DATA pulled for the probe and at the start of the pass (0xFB), released when the
  listener is ready (0xFF), pulled and released again in answer to the EOI delay, and
  pulled to acknowledge the byte.
\<close>

definition one_byte_listener :: "u8 list" where
  "one_byte_listener =
     [0xFB, 0xFB, 0xFB, 0xFF, 0xFF, 0xFB, 0xFB, 0xFB, 0xFF, 0xFF, 0xFB, 0xFB]"

text \<open>
  The pin samples seen by a read from a talker that sends one byte, given by its bits,
  lowest first. For each bit the talker releases CLK with DATA released for a 1 (0xFF)
  or pulled for a 0 (0xFB), long enough for three samples, then pulls CLK again (0xF7).
  Before the bits it has CLK released once and then pulled: within the EOI detect window
  for \<open>talker_byte\<close>; only after the window of 203 samples has passed, as a talker
  does for the last byte of a message, for \<open>talker_last_byte\<close>.
\<close>

definition talker_bits :: "bool list \<Rightarrow> u8 list" where
  "talker_bits bits =
     concat (map (\<lambda>v. if v then [0xFF, 0xFF, 0xFF, 0xF7, 0xF7]
                          else [0xFB, 0xFB, 0xFB, 0xF7, 0xF7]) bits)"

definition talker_byte :: "bool list \<Rightarrow> u8 list" where
  "talker_byte bits = [0xFF, 0xF7, 0xF7, 0xF7, 0xF7] @ talker_bits bits"

definition talker_last_byte :: "bool list \<Rightarrow> u8 list" where
  "talker_last_byte bits =
     0xFF # replicate 201 0xFF @ [0xFF, 0xF7, 0xF7] @ talker_bits bits"

text \<open>The byte 0x41, lowest bit first.\<close>

definition bits_0x41 :: "bool list" where
  "bits_0x41 = [True, False, False, False, False, False, True, False]"

text \<open>A bus on which the talker holds CLK pulled for ever.\<close>

definition held_clock :: hw where
  "held_clock = (bench [] [])\<lparr>pins := sconst 0xF7\<rparr>"

text \<open>
  The pin samples seen by the pass for the last byte of a write whose listener is ready,
  answers the EOI delay, and then never acknowledges the byte.
\<close>

definition silent_listener :: "u8 list" where
  "silent_listener = [0xFB, 0xFF, 0xFF, 0xFB, 0xFB, 0xFB, 0xFF, 0xFF]"

section \<open>Properties\<close>

lemmas line_masks = IO_DATA_def IO_CLK_def IO_ATN_def IO_SRQ_def IO_RESET_def BV_def
  IEC_DATA_def IEC_CLOCK_def IEC_ATN_def IEC_RESET_def

text \<open>
  Running the model on concrete surroundings: the primitives, and the rules that make the
  simplifier evaluate a \<^theory_text>\<open>let\<close> by value.
\<close>

lemmas prims = iec_get_def iec_set_def iec_release_def iec_set_release_def write_IEC_DDR_def
  read_IEC_PIN_def iec_poll_def iec_poll_pins_def DELAY_US_def TimerWorker_def usbInitIo_def
  usbIoDone_def usbRecvByte_def usbSendByte_def wdt_reset_def cli_def sei_def

lemmas run = prims line_masks bench_def Let_def case_prod_beta

lemma poll_DATA: "(p AND (IO_DATA OR IO_CLK OR IO_ATN OR IO_SRQ OR IO_RESET)) AND IO_DATA = p AND IO_DATA"
  by (simp add: line_masks and.assoc)

lemma poll_CLK: "(p AND (IO_DATA OR IO_CLK OR IO_ATN OR IO_SRQ OR IO_RESET)) AND IO_CLK = p AND IO_CLK"
  by (simp add: line_masks and.assoc)

lemma poll_line:
  "m = IO_DATA \<or> m = IO_CLK \<Longrightarrow>
   (p AND (IO_DATA OR IO_CLK OR IO_ATN OR IO_SRQ OR IO_RESET)) AND m = p AND m"
  using poll_DATA poll_CLK by auto

lemma siterate_id: "siterate (\<lambda>a. a) v = sconst v"
  by (simp add: id_def)

subsection \<open>Pin reads and delays in the log\<close>

lemma polled_is_poll: "list_all is_poll (polled d n ps)"
  by (induction n arbitrary: ps) simp_all

lemma wait_before_polls:
  "list_all is_poll xs \<Longrightarrow> wait_before m state (xs @ l) = wait_before m state l"
  by (induction xs) simp_all

lemma not_clock_pulled_poll: "is_poll e \<Longrightarrow> \<not> clock_pulled e"
  by (cases e) simp_all

lemma eoi_delays_in_polls:
  "list_all is_poll xs \<Longrightarrow> eoi_delays_in (xs @ l) = eoi_delays_in l"
  by (induction xs) (simp_all add: eoi_delay_ends_def not_clock_pulled_poll)

lemma fetched_polls: "list_all is_poll xs \<Longrightarrow> filter (\<lambda>e. e = UsbRecv) xs = []"
proof (induction xs)
  case Nil
  show ?case by simp
next
  case (Cons e xs)
  then show ?case by (cases e) simp_all
qed

lemma sent_polls: "list_all is_poll xs \<Longrightarrow> concat (map sent_byte xs) = []"
proof (induction xs)
  case Nil
  show ?case by simp
next
  case (Cons e xs)
  then show ?case by (cases e) simp_all
qed

lemma delay_us_polled: "sum_list (map delay_us (polled d n ps)) = n * d"
  by (induction n arbitrary: ps) simp_all

lemmas polled_obs = wait_before_polls [OF polled_is_poll] eoi_delays_in_polls [OF polled_is_poll]
  fetched_polls [OF polled_is_poll] sent_polls [OF polled_is_poll] delay_us_polled

subsection \<open>Evaluation rules for the polling loops on a state written out\<close>

lemma iec_wait_timeout_2ms_loop_Cons:
  "iec_wait_timeout_2ms_loop m state n
     \<lparr>ddr = d, pins = p ## ps, eoi = e, timer = t, usb_rx = r, usb_tx = x, log = l\<rparr> =
   (if (p AND (IO_DATA OR IO_CLK OR IO_ATN OR IO_SRQ OR IO_RESET)) AND m = state \<and> n \<noteq> 0
    then iec_wait_timeout_2ms_loop m state (n - 1)
           \<lparr>ddr = d, pins = ps, eoi = e, timer = t, usb_rx = r, usb_tx = x,
            log = Delay 10 # Pin p # l\<rparr>
    else \<lparr>ddr = d, pins = ps, eoi = e, timer = t, usb_rx = r, usb_tx = x, log = Pin p # l\<rparr>)"
  by (subst iec_wait_timeout_2ms_loop.simps) (simp add: prims)

lemma iec_wait_timeout_2ms_loop_sconst:
  "iec_wait_timeout_2ms_loop m state n
     \<lparr>ddr = d, pins = sconst v, eoi = e, timer = t, usb_rx = r, usb_tx = x, log = l\<rparr> =
   \<lparr>ddr = d, pins = sconst v, eoi = e, timer = t, usb_rx = r, usb_tx = x,
    log = Pin v #
          (if (v AND (IO_DATA OR IO_CLK OR IO_ATN OR IO_SRQ OR IO_RESET)) AND m = state
           then polled 10 n (sconst v) else []) @ l\<rparr>"
proof (induction n arbitrary: l)
  case 0
  show ?case by (subst iec_wait_timeout_2ms_loop.simps) (simp add: prims siterate_id)
next
  case (Suc n)
  show ?case
    by (subst iec_wait_timeout_2ms_loop.simps) (simp add: prims Suc siterate_id)
qed

lemma iec_wait_clk_loop_Cons:
  "iec_wait_clk_loop n
     \<lparr>ddr = d, pins = p ## ps, eoi = e, timer = t, usb_rx = r, usb_tx = x, log = l\<rparr> =
   (if p AND IO_CLK \<noteq> 0 \<and> n \<noteq> 0
    then iec_wait_clk_loop (n - 1)
           \<lparr>ddr = d, pins = ps, eoi = e, timer = t, usb_rx = r, usb_tx = x,
            log = Delay 2 # Pin p # l\<rparr>
    else \<lparr>ddr = d, pins = ps, eoi = e, timer = t, usb_rx = r, usb_tx = x, log = Pin p # l\<rparr>)"
  by (subst iec_wait_clk_loop.simps) (simp add: prims)

lemma iec_wait_clk_loop_sconst:
  "iec_wait_clk_loop n
     \<lparr>ddr = d, pins = sconst v, eoi = e, timer = t, usb_rx = r, usb_tx = x, log = l\<rparr> =
   \<lparr>ddr = d, pins = sconst v, eoi = e, timer = t, usb_rx = r, usb_tx = x,
    log = Pin v # (if v AND IO_CLK \<noteq> 0 then polled 2 n (sconst v) else []) @ l\<rparr>"
proof (induction n arbitrary: l)
  case 0
  show ?case by (subst iec_wait_clk_loop.simps) (simp add: prims siterate_id)
next
  case (Suc n)
  show ?case
    by (subst iec_wait_clk_loop.simps) (simp add: prims Suc siterate_id)
qed

lemma iec_wait_clk_loop_replicate:
  "v AND IO_CLK \<noteq> 0 \<Longrightarrow>
   iec_wait_clk_loop n
     \<lparr>ddr = d, pins = replicate (Suc n) v @- ps, eoi = e, timer = t, usb_rx = r, usb_tx = x, log = l\<rparr> =
   \<lparr>ddr = d, pins = ps, eoi = e, timer = t, usb_rx = r, usb_tx = x,
    log = Pin v # polled 2 n (sconst v) @ l\<rparr>"
proof (induction n arbitrary: l)
  case 0
  then show ?case by (subst iec_wait_clk_loop.simps) (simp add: prims)
next
  case (Suc n)
  then show ?case
    by (subst iec_wait_clk_loop.simps) (simp add: prims siterate_id)
qed

lemma iec_wait_clk_loop_window:
  "v AND IO_CLK \<noteq> 0 \<Longrightarrow>
   iec_wait_clk_loop 200
     \<lparr>ddr = d, pins = replicate 201 v @- ps, eoi = e, timer = t, usb_rx = r, usb_tx = x, log = l\<rparr> =
   \<lparr>ddr = d, pins = ps, eoi = e, timer = t, usb_rx = r, usb_tx = x,
    log = Pin v # polled 2 200 (sconst v) @ l\<rparr>"
  using iec_wait_clk_loop_replicate [of v 200] by simp

lemma cbm_raw_read_wait_clk_Cons:
  "cbm_raw_read_wait_clk to
     \<lparr>ddr = d, pins = p ## ps, eoi = e, timer = t, usb_rx = r, usb_tx = x, log = l\<rparr> =
   (if p AND IO_CLK = 0 then
      (if to \<ge> 50000
       then (False, \<lparr>ddr = d, pins = ps, eoi = e, timer = t, usb_rx = r, usb_tx = x,
                     log = Pin p # l\<rparr>)
       else if \<not> shd t
       then (False, \<lparr>ddr = d, pins = ps, eoi = e, timer = stl t, usb_rx = r, usb_tx = x,
                     log = Pin p # l\<rparr>)
       else cbm_raw_read_wait_clk (to + 1)
              \<lparr>ddr = d, pins = ps, eoi = e, timer = stl t, usb_rx = r, usb_tx = x,
               log = Delay 20 # Pin p # l\<rparr>)
    else (True, \<lparr>ddr = d, pins = ps, eoi = e, timer = t, usb_rx = r, usb_tx = x,
                 log = Pin p # l\<rparr>))"
  by (subst cbm_raw_read_wait_clk.simps) (simp add: prims)

lemma cbm_raw_read_wait_clk_held:
  "v AND IO_CLK = 0 \<Longrightarrow> to \<le> 50000 \<Longrightarrow>
   cbm_raw_read_wait_clk to
     \<lparr>ddr = d, pins = sconst v, eoi = e, timer = sconst True, usb_rx = r, usb_tx = x, log = l\<rparr> =
   (False, \<lparr>ddr = d, pins = sconst v, eoi = e, timer = sconst True, usb_rx = r, usb_tx = x,
             log = Pin v # polled 20 (50000 - to) (sconst v) @ l\<rparr>)"
proof (induction "50000 - to" arbitrary: to l)
  case 0
  then show ?case by (subst cbm_raw_read_wait_clk.simps) (simp add: prims siterate_id)
next
  case (Suc n)
  then have "n = 50000 - (to + 1)" "to + 1 \<le> 50000" "\<not> 50000 \<le> to" by simp_all
  with Suc.hyps(1) [of "to + 1" "Delay 20 # Pin v # l"] Suc.prems Suc.hyps(2) [symmetric]
  show ?case
    by (subst cbm_raw_read_wait_clk.simps) (simp add: prims siterate_id)
qed

lemma cbm_raw_read_wait_clk_free:
  "v AND IO_CLK \<noteq> 0 \<Longrightarrow>
   cbm_raw_read_wait_clk to
     \<lparr>ddr = d, pins = sconst v, eoi = e, timer = t, usb_rx = r, usb_tx = x, log = l\<rparr> =
   (True, \<lparr>ddr = d, pins = sconst v, eoi = e, timer = t, usb_rx = r, usb_tx = x,
           log = Pin v # l\<rparr>)"
  by (subst cbm_raw_read_wait_clk.simps) (simp add: prims siterate_id)

lemma wait_for_listener_loop_Cons:
  "wait_for_listener_loop fuel
     \<lparr>ddr = d, pins = p ## ps, eoi = e, timer = t, usb_rx = r, usb_tx = x, log = l\<rparr> =
   (if fuel = 0
    then (None, \<lparr>ddr = d, pins = p ## ps, eoi = e, timer = t, usb_rx = r, usb_tx = x, log = l\<rparr>)
    else if p AND IO_DATA = 0 then
      (if \<not> shd t
       then (Some False, \<lparr>ddr = d, pins = ps, eoi = e, timer = stl t, usb_rx = r, usb_tx = x,
                          log = Pin p # l\<rparr>)
       else wait_for_listener_loop (fuel - 1)
              \<lparr>ddr = d, pins = ps, eoi = e, timer = stl t, usb_rx = r, usb_tx = x,
               log = Pin p # l\<rparr>)
    else (Some True, \<lparr>ddr = d, pins = ps, eoi = e, timer = t, usb_rx = r, usb_tx = x,
                      log = Pin p # l\<rparr>))"
  by (subst wait_for_listener_loop.simps) (simp add: prims)

lemma cbm_raw_write_talk_wait_Cons:
  "cbm_raw_write_talk_wait fuel rv
     \<lparr>ddr = d, pins = p ## ps, eoi = e, timer = t, usb_rx = r, usb_tx = x, log = l\<rparr> =
   (if fuel = 0
    then (None, \<lparr>ddr = d, pins = p ## ps, eoi = e, timer = t, usb_rx = r, usb_tx = x, log = l\<rparr>)
    else if p AND IO_CLK \<noteq> 0 then
      (if \<not> shd t
       then (Some 0, \<lparr>ddr = d, pins = ps, eoi = e, timer = stl t, usb_rx = r, usb_tx = x,
                      log = Pin p # l\<rparr>)
       else cbm_raw_write_talk_wait (fuel - 1) rv
              \<lparr>ddr = d, pins = ps, eoi = e, timer = stl t, usb_rx = r, usb_tx = x,
               log = Pin p # l\<rparr>)
    else (Some rv, \<lparr>ddr = d, pins = ps, eoi = e, timer = t, usb_rx = r, usb_tx = x,
                    log = Pin p # l\<rparr>))"
  by (subst cbm_raw_write_talk_wait.simps) (simp add: prims)

lemmas loop_rules = iec_wait_timeout_2ms_loop_Cons iec_wait_timeout_2ms_loop_sconst
  iec_wait_clk_loop_Cons iec_wait_clk_loop_sconst iec_wait_clk_loop_window
  cbm_raw_read_wait_clk_Cons cbm_raw_read_wait_clk_held cbm_raw_read_wait_clk_free
  wait_for_listener_loop_Cons cbm_raw_write_talk_wait_Cons siterate_id

lemmas write_defs = cbm_raw_write_def cbm_raw_write_from_def cbm_raw_write_loop.simps
  cbm_raw_write_body_def cbm_raw_write_eoi_def cbm_raw_write_end_def wait_for_listener_def
  send_byte_def send_byte_loop.simps iec_wait_timeout_2ms_def loop_rules

lemmas read_defs = cbm_raw_read_def cbm_raw_read_loop.simps
  cbm_raw_read_eoi_def cbm_raw_read_byte_def cbm_raw_read_bits.simps cbm_raw_read_end_def
  iec_wait_clk_def iec_wait_timeout_2ms_def loop_rules

lemmas talker_defs = talker_bits_def talker_byte_def talker_last_byte_def bits_0x41_def

subsection \<open>The lookup table\<close>

lemma u8_le15_cases:
  fixes i :: u8
  assumes "i \<le> 15"
  shows "i \<in> {0,1,2,3,4,5,6,7,8,9,10,11,12,13,14,15}"
proof -
  from assms have "unat i \<le> 15" by (simp add: word_le_nat_alt)
  then have "unat i \<in> {0,1,2,3,4,5,6,7,8,9,10,11,12,13,14,15}" by simp arith
  then have "word_of_nat (unat i) \<in> (word_of_nat ` {0,1,2,3,4,5,6,7,8,9,10,11,12,13,14,15} :: u8 set)"
    by (rule imageI)
  then show ?thesis by simp
qed

text \<open>
  C3. For each of the 16 combinations \<open>i\<close> of the logical lines DATA = 1, CLOCK = 2,
  ATN = 4 and RESET = 8, \<open>iec2hw i\<close> is the bitwise OR of the physical masks of exactly
  the lines whose logical bit is set in \<open>i\<close>.
\<close>

theorem iec2hw_or_of_masks:
  "i \<le> 15 \<Longrightarrow>
   iec2hw i = Inr ((if i AND IEC_DATA \<noteq> 0 then IO_DATA else 0) OR
                   (if i AND IEC_CLOCK \<noteq> 0 then IO_CLK else 0) OR
                   (if i AND IEC_ATN \<noteq> 0 then IO_ATN else 0) OR
                   (if i AND IEC_RESET \<noteq> 0 then IO_RESET else 0))"
  apply (drule u8_le15_cases)
  apply (auto simp: iec2hw_def iec2hw_table_def line_masks)
  done

theorem iec2hw_or_of_masks_witness:
  "(5::u8) \<le> 15 \<and> iec2hw 5 = Inr (IO_DATA OR IO_ATN) \<and> IO_DATA OR IO_ATN = 0x14"
  using iec2hw_or_of_masks [of 5] by (simp add: line_masks)

lemma iec2hw_Inr_iff: "(\<exists>m. iec2hw i = Inr m) \<longleftrightarrow> i \<le> 15"
  by (auto simp: iec2hw_def iec2hw_table_def word_le_nat_alt)

lemma iec2hw_Inl_iff: "iec2hw i = Inl OutOfBounds \<longleftrightarrow> \<not> i \<le> 15"
  by (auto simp: iec2hw_def iec2hw_table_def word_le_nat_alt)

text \<open>
  C9. \<open>iec2hw\<close> indexes the 16-entry table with its raw argument, and
  \<open>xu1541_setrelease\<close> hands both of its arguments to it unchecked: the lookup stays
  inside the table exactly when the argument is at most 15, and \<open>xu1541_setrelease\<close>
  avoids the out-of-bounds read exactly when both arguments are.
\<close>

theorem iec2hw_in_bounds_iff:
  "((\<exists>m. iec2hw i = Inr m) \<longleftrightarrow> i \<le> 15) \<and>
   (iec2hw i = Inl OutOfBounds \<longleftrightarrow> 15 < i) \<and>
   ((\<exists>s'. xu1541_setrelease a b s = Inr s') \<longleftrightarrow> a \<le> 15 \<and> b \<le> 15) \<and>
   (xu1541_setrelease a b s = Inl OutOfBounds \<longleftrightarrow> 15 < a \<or> 15 < b)"
proof -
  have 1: "(\<exists>s'. xu1541_setrelease a b s = Inr s') \<longleftrightarrow> a \<le> 15 \<and> b \<le> 15"
    using iec2hw_Inr_iff [of a] iec2hw_Inr_iff [of b] iec2hw_Inl_iff [of a] iec2hw_Inl_iff [of b]
    by (cases "iec2hw a"; cases "iec2hw b") (auto simp: xu1541_setrelease_def)
  have 2: "xu1541_setrelease a b s = Inl OutOfBounds \<longleftrightarrow> 15 < a \<or> 15 < b"
    using iec2hw_Inr_iff [of a] iec2hw_Inr_iff [of b] iec2hw_Inl_iff [of a] iec2hw_Inl_iff [of b]
    by (cases "iec2hw a"; cases "iec2hw b") (auto simp: xu1541_setrelease_def not_le)
  show ?thesis using 1 2 iec2hw_Inr_iff [of i] iec2hw_Inl_iff [of i] by (simp add: not_le)
qed

theorem iec2hw_in_bounds_iff_witness:
  "(\<exists>m. iec2hw 15 = Inr m) \<and> iec2hw 16 = Inl OutOfBounds \<and>
   (\<exists>s'. xu1541_setrelease 2 1 (bench [] []) = Inr s') \<and>
   xu1541_setrelease 2 16 (bench [] []) = Inl OutOfBounds"
  using iec2hw_in_bounds_iff [of 15 2 1 "bench [] []"]
        iec2hw_in_bounds_iff [of 16 2 16 "bench [] []"]
  by simp

subsection \<open>Bus-free detection\<close>

text \<open>
  C7. \<open>check_if_bus_free\<close> releases all lines, waits 50 us and samples DATA; waits
  another 50 us and samples DATA again; pulls ATN, waits 100 us and samples DATA;
  releases ATN, waits 100 us and samples DATA a fourth time. It stops at the first
  sample that tells against a free bus: DATA pulled at either sample of the settle
  window (result 0, ATN never pulled), or DATA released while ATN is held (result 0,
  after releasing ATN). Otherwise the result is 1 when the sample taken after the
  release of ATN reads DATA released, and 0 when it reads DATA pulled. So the result is
  1 exactly when the four samples read released, released, pulled, released. The
  samples are the next four values of the pin register, each read at the place in the
  sequence of line changes and delays that the log shows.
\<close>

theorem check_if_bus_free_result:
  "check_if_bus_free s =
     (let d0 = ddr s AND NOT (IO_ATN OR IO_CLK OR IO_DATA OR IO_RESET);
          d1 = d0 OR IO_ATN;
          d2 = d1 AND NOT IO_ATN;
          p0 = pins s !! 0; p1 = pins s !! 1; p2 = pins s !! 2; p3 = pins s !! 3
      in if p0 AND IO_DATA = 0
         then (0, s\<lparr>ddr := d0, pins := sdrop 1 (pins s),
                     log := [Pin p0, Delay 50, Ddr d0] @ log s\<rparr>)
         else if p1 AND IO_DATA = 0
         then (0, s\<lparr>ddr := d0, pins := sdrop 2 (pins s),
                     log := [Pin p1, Delay 50, Pin p0, Delay 50, Ddr d0] @ log s\<rparr>)
         else if p2 AND IO_DATA \<noteq> 0
         then (0, s\<lparr>ddr := d2, pins := sdrop 3 (pins s),
                     log := [Ddr d2, Pin p2, Delay 100, Ddr d1,
                             Pin p1, Delay 50, Pin p0, Delay 50, Ddr d0] @ log s\<rparr>)
         else (if p3 AND IO_DATA \<noteq> 0 then 1 else 0,
               s\<lparr>ddr := d2, pins := sdrop 4 (pins s),
                 log := [Pin p3, Delay 100, Ddr d2, Pin p2, Delay 100, Ddr d1,
                         Pin p1, Delay 50, Pin p0, Delay 50, Ddr d0] @ log s\<rparr>)) \<and>
   fst (check_if_bus_free s) =
     (if pins s !! 0 AND IO_DATA \<noteq> 0 \<and> pins s !! 1 AND IO_DATA \<noteq> 0 \<and>
         pins s !! 2 AND IO_DATA = 0 \<and> pins s !! 3 AND IO_DATA \<noteq> 0
      then 1 else 0)"
  by (simp add: check_if_bus_free_def iec_get_def read_IEC_PIN_def DELAY_US_def iec_set_def
        iec_release_def write_IEC_DDR_def Let_def eval_nat_numeral split: prod.splits)

subsection \<open>Burst block transfers\<close>

lemma writeblock_loop_writes:
  "writeblock_loop fd p len h =
     h\<lparr>burst_writes := burst_writes h @ map (mem h) [p ..< p + (256 - unat len)]\<rparr>"
proof (induction fd p len h rule: writeblock_loop.induct)
  case (1 fd p len h)
  show ?case
  proof (cases "len < 0x100")
    case True
    define h' where "h' = cbm_srq_burst_write fd (mem h p) h"
    from True have u: "unat len < 256" by (simp add: word_less_nat_alt)
    then have u1: "unat (len + 1) = unat len + 1" by (simp add: unat_word_ariths)
    from u have e2: "p + 1 + (256 - (unat len + 1)) = p + (256 - unat len)" by arith
    from u have "p < p + (256 - unat len)" by arith
    then have c: "[p ..< p + (256 - unat len)] = p # [Suc p ..< p + (256 - unat len)]"
      by (rule upt_conv_Cons)
    have m: "map (mem h') [p + 1 ..< p + 1 + (256 - unat (len + 1))] =
             map (mem h) [Suc p ..< p + (256 - unat len)]"
      unfolding u1 e2 by (simp add: h'_def cbm_srq_burst_write_def)
    have "writeblock_loop fd p len h = writeblock_loop fd (p + 1) (len + 1) h'"
      using True by (subst writeblock_loop.simps) (simp add: h'_def)
    also have "\<dots> = h'\<lparr>burst_writes := burst_writes h' @
                 map (mem h') [p + 1 ..< p + 1 + (256 - unat (len + 1))]\<rparr>"
      unfolding h'_def using True by (rule 1)
    also have "\<dots> = h\<lparr>burst_writes := burst_writes h @ map (mem h) [p ..< p + (256 - unat len)]\<rparr>"
      unfolding m c by (simp add: h'_def cbm_srq_burst_write_def)
    finally show ?thesis .
  next
    case False
    then have "256 \<le> unat len" by (simp add: word_less_nat_alt)
    with False show ?thesis by (subst writeblock_loop.simps) simp
  qed
qed

text \<open>
  C8. From a starting value \<open>len\<close> below 256, \<open>writeblock\<close> hands exactly
  \<open>256 - len\<close> bytes to the one-byte burst write, the consecutive bytes of the buffer
  from \<open>p\<close> on, and returns 0; \<open>readblock\<close> makes one call of the track read for
  exactly \<open>256 - len\<close> bytes. From 256 on, \<open>writeblock\<close> writes nothing and returns 0.
\<close>

theorem writeblock_readblock_count:
  "(len < 0x100 \<longrightarrow>
      writeblock fd p len h =
        (0, h\<lparr>burst_writes := burst_writes h @ map (mem h) [p ..< p + (256 - unat len)]\<rparr>) \<and>
      length (map (mem h) [p ..< p + (256 - unat len)]) = 256 - unat len \<and>
      readblock fd p len h =
        (read_track_reply h p (0x100 - len), h\<lparr>track_reads := track_reads h @ [(p, 0x100 - len)]\<rparr>) \<and>
      unat (0x100 - len) = 256 - unat len) \<and>
   (0x100 \<le> len \<longrightarrow> writeblock fd p len h = (0, h))"
proof -
  have a: "unat (0x100 - len) = 256 - unat len" if "len < 0x100"
  proof -
    from that have "len \<le> 0x100" by simp
    then have "unat (0x100 - len) = unat (0x100 :: u32) - unat len" by (rule unat_sub)
    then show ?thesis by simp
  qed
  have b: "writeblock fd p len h = (0, h)" if "0x100 \<le> len"
  proof -
    from that have "256 \<le> unat len" by (simp add: word_le_nat_alt)
    then show ?thesis by (simp add: writeblock_def writeblock_loop_writes)
  qed
  show ?thesis using a b
    by (simp add: writeblock_def writeblock_loop_writes readblock_def cbm_srq_burst_read_track_def)
qed

theorem writeblock_readblock_count_witness:
  "(253::u32) < 0x100 \<and>
   writeblock 3 16 253 (host_1571 0) = (0, (host_1571 0)\<lparr>burst_writes := [16, 17, 18]\<rparr>) \<and>
   readblock 3 16 253 (host_1571 0) = (0, (host_1571 0)\<lparr>track_reads := [(16, 3)]\<rparr>) \<and>
   (0x100::u32) \<le> 300 \<and> writeblock 3 16 300 (host_1571 0) = (0, host_1571 0)"
  using writeblock_readblock_count [of 253 3 16 "host_1571 0"]
        writeblock_readblock_count [of 300 3 16 "host_1571 0"]
  by (simp add: host_1571_def)


subsection \<open>Upload of the drive program\<close>

text \<open>
  C6. With a 1570 or 1571 identified, \<open>upload\<close> returns 0 exactly when the upload
  primitive reports the image length as the number of bytes written and 1 for any other
  count (so for every lesser one); an image of 256 bytes or more fails the assertion
  before the upload primitive is called (no upload is recorded). \<open>r\<close> is the \<^verbatim>\<open>int\<close>
  the primitive returns.
\<close>

theorem upload_result:
  assumes "identify_reply h = (0, dt)" and "dt = cbm_dt_cbm1570 \<or> dt = cbm_dt_cbm1571"
    and "length prog < 2 ^ 32"
    and "r = upload_reply h drive 0x700 prog (word_of_nat (length prog))"
    and "- (2 ^ 31) \<le> r" and "r < 2 ^ 31"
  shows "(length prog < 256 \<longrightarrow>
            upload prog fd drive h =
              (Returned (if r = int (length prog) then 0 else 1),
               h\<lparr>uploads := uploads h @ [(drive, 0x700, prog, word_of_nat (length prog))]\<rparr>)) \<and>
         (256 \<le> length prog \<longrightarrow> upload prog fd drive h = (AssertionFailed, h))"
proof -
  have lt: "(word_of_nat (length prog) :: u32) < 0x100 \<longleftrightarrow> length prog < 256"
    using assms(3) by (simp add: word_less_nat_alt unat_of_nat)
  have eq: "(word_of_int r :: u32) = word_of_nat (length prog) \<longleftrightarrow> r = int (length prog)"
    if "length prog < 256"
  proof
    assume "r = int (length prog)"
    then show "(word_of_int r :: u32) = word_of_nat (length prog)" by simp
  next
    assume a: "(word_of_int r :: u32) = word_of_nat (length prog)"
    have "uint (word_of_nat (length prog) :: u32) = int (length prog)"
      using that by (simp add: uint_nat unat_of_nat)
    with a have "uint (word_of_int r :: u32) = int (length prog)" by simp
    then have m: "r mod 2 ^ 32 = int (length prog)" by (simp add: uint_word_of_int)
    show "r = int (length prog)"
    proof (cases "0 \<le> r")
      case True
      with assms(6) have "r mod 2 ^ 32 = r" by simp
      with m show ?thesis by simp
    next
      case False
      with assms(5) have "0 \<le> r + 2 ^ 32" and "r + 2 ^ 32 < 2 ^ 32" by simp_all
      then have "(r + 2 ^ 32) mod 2 ^ 32 = r + 2 ^ 32" by (rule mod_pos_pos_trivial)
      then have "r mod 2 ^ 32 = r + 2 ^ 32" by simp
      with m have "r + 2 ^ 32 = int (length prog)" by simp
      with assms(5) that show ?thesis by simp
    qed
  qed
  have id: "cbm_identify fd drive h = (0, dt, h)"
    using assms(1) by (simp add: cbm_identify_def)
  have up: "upload prog fd drive h = upload_image fd drive prog h"
    using assms(2) by (auto simp: upload_def id)
  have small: "upload_image fd drive prog h =
      (Returned (if r = int (length prog) then 0 else 1),
       h\<lparr>uploads := uploads h @ [(drive, 0x700, prog, word_of_nat (length prog))]\<rparr>)"
    if "length prog < 256"
    using that lt eq [OF that] assms(4)
    by (simp add: upload_image_def cbm_upload_def Let_def)
  have big: "upload_image fd drive prog h = (AssertionFailed, h)" if "256 \<le> length prog"
    using that lt by (simp add: upload_image_def Let_def not_less)
  show ?thesis using small big by (simp add: up)
qed


theorem upload_result_witness:
  "identify_reply (host_1571 255) = (0, cbm_dt_cbm1571) \<and>
   upload (replicate 255 0) 3 8 (host_1571 255) =
     (Returned 0, (host_1571 255)\<lparr>uploads := [(8, 0x700, replicate 255 0, 255)]\<rparr>) \<and>
   upload (replicate 255 0) 3 8 (host_1571 254) =
     (Returned 1, (host_1571 254)\<lparr>uploads := [(8, 0x700, replicate 255 0, 255)]\<rparr>) \<and>
   upload (replicate 256 0) 3 8 (host_1571 256) = (AssertionFailed, host_1571 256)"
  using upload_result [where h = "host_1571 255" and dt = cbm_dt_cbm1571 and r = 255
          and prog = "replicate 255 0" and drive = 8 and fd = 3]
        upload_result [where h = "host_1571 254" and dt = cbm_dt_cbm1571 and r = 254
          and prog = "replicate 255 0" and drive = 8 and fd = 3]
        upload_result [where h = "host_1571 256" and dt = cbm_dt_cbm1571 and r = 256
          and prog = "replicate 256 0" and drive = 8 and fd = 3]
  by (simp add: host_1571_def)

subsection \<open>What the bounded waits leave behind\<close>



subsection \<open>Writes of length zero\<close>




end
